theory Spec2Isabelle
  imports Main
begin

section \<open>Handles, result wrappers and continuation state\<close>

text \<open>
  A \<open>hipStream_t\<close> or \<open>hipEvent_t\<close> is an opaque driver handle (a pointer); \<open>None\<close> is the
  null handle. \<open>SharedStreamPtr\<close> and \<open>SharedEventPtr\<close> are shared pointers to such
  handles, \<open>None\<close> being the empty pointer; their \<open>get()\<close> is the identity on this
  representation. Reference counts are not part of the model. A member that the source
  writes with a trailing underscore (\<open>stream_\<close>) is written with a prime (\<open>stream'\<close>).
\<close>

type_synonym hipStream_t = "nat option"
type_synonym hipEvent_t = "nat option"
type_synonym SharedStreamPtr = "nat option"
type_synonym SharedEventPtr = "nat option"

text \<open>
  Modelled from the spec: \<open>CUDACore/Product.h\<close> is not part of the sources at hand. The
  result wrapper is the tuple \<open>{device, stream, event-or-none, available, value}\<close>;
  \<open>ProductBase\<close> is its untyped part, \<open>Product<T>\<close> adds the value \<open>data'\<close>.
\<close>

record ProductBase =
  product_device :: int
  product_stream :: SharedStreamPtr
  product_event :: SharedEventPtr
  available :: bool

record 'a Product = ProductBase +
  data' :: 'a

definition isAvailable :: "'z ProductBase_scheme \<Rightarrow> bool" where
  "isAvailable data = available data"

text \<open>
  Modelled from the spec: the constructor \<open>Product<T>(device, stream, event, data)\<close> that
  \<open>wrap\<close> and \<open>emplace\<close> call. A wrapper is built before the producing scope has recorded
  its event, so it starts out not available.
\<close>

definition new_Product :: "int \<Rightarrow> SharedStreamPtr \<Rightarrow> SharedEventPtr \<Rightarrow> 'a \<Rightarrow> 'a Product" where
  "new_Product dev strm ev val =
     \<lparr>product_device = dev, product_stream = strm, product_event = ev,
      available = False, data' = val\<rparr>"

text \<open>
  Modelled from the spec: \<open>CUDACore/ContextState.h\<close> is not part of the sources at hand.
  Continuation state is the pair \<open>{device, stream}\<close>; \<open>releaseStreamPtr\<close> hands the stream
  out and leaves the state without one.
\<close>

record ContextState =
  cs_device :: int
  cs_stream :: SharedStreamPtr

definition ContextState_device :: "ContextState \<Rightarrow> int" where
  "ContextState_device st = cs_device st"

definition ContextState_streamPtr :: "ContextState \<Rightarrow> SharedStreamPtr" where
  "ContextState_streamPtr st = cs_stream st"

definition releaseStreamPtr :: "ContextState \<Rightarrow> SharedStreamPtr \<times> ContextState" where
  "releaseStreamPtr st = (cs_stream st, st\<lparr>cs_stream := None\<rparr>)"

section \<open>Waiting-task holders\<close>

text \<open>
  The closure that \<open>ScopedContextHolderHelper::pushNextTask\<close> builds captures the
  continuation-state pointer and the user callback \<open>func\<close> (identified by a number).
\<close>

datatype callback = TaskLambda "nat option" nat

text \<open>
  Modelled from the spec: \<open>Framework/WaitingTaskWithArenaHolder.h\<close> is not part of the
  sources at hand. A holder is either a waiting task supplied by the framework or the
  composition of a held holder with a callback (\<open>make_waiting_task_with_holder\<close>).
\<close>

datatype WaitingTaskWithArenaHolder =
    WaitingTask nat
  | WaitingTaskWithHolder WaitingTaskWithArenaHolder callback

definition make_waiting_task_with_holder ::
    "WaitingTaskWithArenaHolder \<Rightarrow> callback \<Rightarrow> WaitingTaskWithArenaHolder" where
  "make_waiting_task_with_holder h f = WaitingTaskWithHolder h f"

section \<open>Driver, pools and machine state\<close>

datatype call =
    SetDevice int
  | StreamWaitEvent hipStream_t hipEvent_t
  | StreamAddCallback hipStream_t int WaitingTaskWithArenaHolder

datatype error =
    InvalidDevice int
  | StreamPoolExhausted
  | EventPoolExhausted
  | NoState
  | NullContextState

text \<open>
  The state outside the scopes: the driver (number of devices, current device, the calls
  issued so far), the two pools of reusable handles, the map from stream keys to devices,
  and the store of continuation-state objects that scopes and closures point into.
  Every failure is fatal, so a failing operation returns the error alone.
\<close>

record machine =
  deviceCount :: int
  chooseDevice :: "nat \<Rightarrow> int"
  driverDevice :: int
  streamCache :: "nat list"
  eventCache :: "nat list"
  states :: "nat \<Rightarrow> ContextState"
  calls :: "call list"

text \<open>Modelled from the spec: selecting a device fails for an invalid id.\<close>

definition setDevice :: "int \<Rightarrow> machine \<Rightarrow> error + machine" where
  "setDevice d m =
     (if 0 \<le> d \<and> d < deviceCount m
      then Inr (m\<lparr>driverDevice := d, calls := calls m @ [SetDevice d]\<rparr>)
      else Inl (InvalidDevice d))"

text \<open>
  Modelled from the spec: \<open>CUDACore/StreamCache.h\<close> and \<open>CUDACore/EventCache.h\<close> are not
  part of the sources at hand. A pool hands out its next free handle and fails when it
  has none.
\<close>

definition StreamCache_get :: "machine \<Rightarrow> error + (SharedStreamPtr \<times> machine)" where
  "StreamCache_get m =
     (case streamCache m of
        [] \<Rightarrow> Inl StreamPoolExhausted
      | s # ss \<Rightarrow> Inr (Some s, m\<lparr>streamCache := ss\<rparr>))"

definition EventCache_get :: "machine \<Rightarrow> error + (SharedEventPtr \<times> machine)" where
  "EventCache_get m =
     (case eventCache m of
        [] \<Rightarrow> Inl EventPoolExhausted
      | e # es \<Rightarrow> Inr (Some e, m\<lparr>eventCache := es\<rparr>))"

text \<open>
  Modelled from the spec: \<open>Framework/Event.h\<close> is not part of the sources at hand. The
  event is a token-addressed store of result wrappers.
\<close>

type_synonym 'a Event = "nat \<Rightarrow> 'a Product"

definition Event_get :: "'a Event \<Rightarrow> nat \<Rightarrow> 'a Product" where
  "Event_get iEvent token = iEvent token"

definition Event_emplace ::
    "'a Event \<Rightarrow> nat \<Rightarrow> int \<Rightarrow> SharedStreamPtr \<Rightarrow> SharedEventPtr \<Rightarrow> 'a \<Rightarrow> 'a Event" where
  "Event_emplace iEvent token dev strm ev val = iEvent(token := new_Product dev strm ev val)"

section \<open>Base scope\<close>

record ScopedContextBase =
  currentDevice' :: int
  stream' :: SharedStreamPtr

definition device :: "'z ScopedContextBase_scheme \<Rightarrow> int" where
  "device ctx = currentDevice' ctx"

definition stream :: "'z ScopedContextBase_scheme \<Rightarrow> hipStream_t" where
  "stream ctx = stream' ctx"

definition streamPtr :: "'z ScopedContextBase_scheme \<Rightarrow> SharedStreamPtr" where
  "streamPtr ctx = stream' ctx"

text \<open>
  Modelled from the spec: the three base constructors are declared in the header and
  defined elsewhere. (a) From a stream key: select the key's device and take a fresh
  stream from the pool. (b) From a result wrapper: select its device and adopt its
  stream. (c) From an explicit \<open>{device, stream}\<close> pair.
\<close>

definition ScopedContextBase_streamID ::
    "nat \<Rightarrow> machine \<Rightarrow> error + (ScopedContextBase \<times> machine)" where
  "ScopedContextBase_streamID streamID m =
     (case setDevice (chooseDevice m streamID) m of
        Inl e \<Rightarrow> Inl e
      | Inr m1 \<Rightarrow>
          (case StreamCache_get m1 of
             Inl e \<Rightarrow> Inl e
           | Inr (s, m2) \<Rightarrow>
               Inr (\<lparr>currentDevice' = chooseDevice m streamID, stream' = s\<rparr>, m2)))"

definition ScopedContextBase_data ::
    "'z ProductBase_scheme \<Rightarrow> machine \<Rightarrow> error + (ScopedContextBase \<times> machine)" where
  "ScopedContextBase_data data m =
     (case setDevice (product_device data) m of
        Inl e \<Rightarrow> Inl e
      | Inr m1 \<Rightarrow>
          Inr (\<lparr>currentDevice' = product_device data, stream' = product_stream data\<rparr>, m1))"

definition ScopedContextBase_device_stream ::
    "int \<Rightarrow> SharedStreamPtr \<Rightarrow> machine \<Rightarrow> error + (ScopedContextBase \<times> machine)" where
  "ScopedContextBase_device_stream dev strm m =
     (case setDevice dev m of
        Inl e \<Rightarrow> Inl e
      | Inr m1 \<Rightarrow> Inr (\<lparr>currentDevice' = dev, stream' = strm\<rparr>, m1))"

section \<open>Synchronizing getter\<close>

text \<open>
  Modelled from the spec: \<open>synchronizeStreams\<close> is declared in the header and defined
  elsewhere. No wait when the result is available; no wait when it was produced on this
  scope's stream; otherwise one instruction making this scope's stream wait for the
  result's event. The device of the result plays no part in that decision.
\<close>

definition synchronizeStreams ::
    "'z ScopedContextBase_scheme \<Rightarrow> int \<Rightarrow> hipStream_t \<Rightarrow> bool \<Rightarrow> hipEvent_t \<Rightarrow> machine \<Rightarrow> machine" where
  "synchronizeStreams ctx dataDevice dataStream avail dataEvent m =
     (if avail then m
      else if dataStream = stream ctx then m
      else m\<lparr>calls := calls m @ [StreamWaitEvent (stream ctx) dataEvent]\<rparr>)"

definition get :: "'z ScopedContextBase_scheme \<Rightarrow> 'a Product \<Rightarrow> machine \<Rightarrow> 'a \<times> machine" where
  "get ctx data m =
     (let m' = synchronizeStreams ctx (product_device data) (product_stream data)
                 (isAvailable data) (product_event data) m
      in (data' data, m'))"

definition get_token ::
    "'z ScopedContextBase_scheme \<Rightarrow> 'a Event \<Rightarrow> nat \<Rightarrow> machine \<Rightarrow> 'a \<times> machine" where
  "get_token ctx iEvent token m = get ctx (Event_get iEvent token) m"

text \<open>The wait-on-event calls among a list of driver calls.\<close>

fun is_wait :: "call \<Rightarrow> bool" where
  "is_wait (StreamWaitEvent s e) = True"
| "is_wait c = False"

section \<open>Continuation holder\<close>

record ScopedContextHolderHelper =
  waitingTaskHolder' :: WaitingTaskWithArenaHolder

definition replaceWaitingTaskHolder ::
    "WaitingTaskWithArenaHolder \<Rightarrow> ScopedContextHolderHelper \<Rightarrow> ScopedContextHolderHelper" where
  "replaceWaitingTaskHolder waitingTaskHolder hh = hh\<lparr>waitingTaskHolder' := waitingTaskHolder\<rparr>"

definition pushNextTask ::
    "nat \<Rightarrow> nat option \<Rightarrow> ScopedContextHolderHelper \<Rightarrow> ScopedContextHolderHelper" where
  "pushNextTask f state hh =
     replaceWaitingTaskHolder
       (make_waiting_task_with_holder (waitingTaskHolder' hh) (TaskLambda state f)) hh"

text \<open>
  Modelled from the spec: \<open>enqueueCallback\<close> is declared in the header and defined
  elsewhere. It registers the held notification with the driver, to fire when the work
  queued so far on the stream has completed.
\<close>

definition enqueueCallback ::
    "int \<Rightarrow> hipStream_t \<Rightarrow> ScopedContextHolderHelper \<Rightarrow> machine \<Rightarrow> machine" where
  "enqueueCallback dev strm hh m =
     m\<lparr>calls := calls m @ [StreamAddCallback strm dev (waitingTaskHolder' hh)]\<rparr>"

fun is_enqueue :: "call \<Rightarrow> bool" where
  "is_enqueue (StreamAddCallback s d h) = True"
| "is_enqueue c = False"

section \<open>Acquire scope\<close>

record ScopedContextAcquire = ScopedContextBase +
  holderHelper' :: ScopedContextHolderHelper
  contextState' :: "nat option"

text \<open>
  The four constructors: a fresh stream or the stream of a result wrapper, each without
  or with a reference to continuation state (an address in the store).
\<close>

datatype acquire_ctor =
    Acquire_streamID nat WaitingTaskWithArenaHolder
  | Acquire_streamID_state nat WaitingTaskWithArenaHolder nat
  | Acquire_data ProductBase WaitingTaskWithArenaHolder
  | Acquire_data_state ProductBase WaitingTaskWithArenaHolder nat

definition init_Acquire ::
    "WaitingTaskWithArenaHolder \<Rightarrow> nat option \<Rightarrow> error + (ScopedContextBase \<times> machine)
       \<Rightarrow> error + (ScopedContextAcquire \<times> machine)" where
  "init_Acquire waitingTaskHolder state base =
     (case base of
        Inl e \<Rightarrow> Inl e
      | Inr (b, m) \<Rightarrow>
          Inr (\<lparr>currentDevice' = currentDevice' b, stream' = stream' b,
                holderHelper' = \<lparr>waitingTaskHolder' = waitingTaskHolder\<rparr>,
                contextState' = state\<rparr>, m))"

fun ScopedContextAcquire_ctor ::
    "acquire_ctor \<Rightarrow> machine \<Rightarrow> error + (ScopedContextAcquire \<times> machine)" where
  "ScopedContextAcquire_ctor (Acquire_streamID streamID h) m =
     init_Acquire h None (ScopedContextBase_streamID streamID m)"
| "ScopedContextAcquire_ctor (Acquire_streamID_state streamID h state) m =
     init_Acquire h (Some state) (ScopedContextBase_streamID streamID m)"
| "ScopedContextAcquire_ctor (Acquire_data data h) m =
     init_Acquire h None (ScopedContextBase_data data m)"
| "ScopedContextAcquire_ctor (Acquire_data_state data h state) m =
     init_Acquire h (Some state) (ScopedContextBase_data data m)"

fun acquire_state :: "acquire_ctor \<Rightarrow> nat option" where
  "acquire_state (Acquire_streamID streamID h) = None"
| "acquire_state (Acquire_streamID_state streamID h state) = Some state"
| "acquire_state (Acquire_data data h) = None"
| "acquire_state (Acquire_data_state data h state) = Some state"

text \<open>
  Modelled from the spec: \<open>throwNoState\<close> is declared in the header and defined
  elsewhere; it fails fatally.
\<close>

definition throwNoState :: "error + unit" where
  "throwNoState = Inl NoState"

definition ScopedContextAcquire_pushNextTask ::
    "nat \<Rightarrow> ScopedContextAcquire \<Rightarrow> error + ScopedContextAcquire" where
  "ScopedContextAcquire_pushNextTask f ctx =
     (case (if contextState' ctx = None then throwNoState else Inr ()) of
        Inl e \<Rightarrow> Inl e
      | Inr u \<Rightarrow>
          Inr (ctx\<lparr>holderHelper' := pushNextTask f (contextState' ctx) (holderHelper' ctx)\<rparr>))"

text \<open>
  Modelled from the spec: the destructor is declared in the header and defined
  elsewhere. On destruction the scope calls \<open>enqueueCallback\<close> with its device and stream.
\<close>

definition ScopedContextAcquire_dtor :: "ScopedContextAcquire \<Rightarrow> machine \<Rightarrow> machine" where
  "ScopedContextAcquire_dtor ctx m = enqueueCallback (device ctx) (stream ctx) (holderHelper' ctx) m"

text \<open>
  The body of a block that owns an Acquire scope and calls \<open>pushNextTask\<close> once per
  callback of the list. A call that fails ends the body there; the scope is then as the
  failing call found it.
\<close>

fun pushNextTask_each ::
    "nat list \<Rightarrow> ScopedContextAcquire \<Rightarrow> error option \<times> ScopedContextAcquire" where
  "pushNextTask_each [] ctx = (None, ctx)"
| "pushNextTask_each (f # fs) ctx =
     (case ScopedContextAcquire_pushNextTask f ctx of
        Inl e \<Rightarrow> (Some e, ctx)
      | Inr ctx' \<Rightarrow> pushNextTask_each fs ctx')"

text \<open>
  Leaving the block, normally or by the failure, destroys the scope; the failure, if
  any, then propagates.
\<close>

definition acquire_block ::
    "nat list \<Rightarrow> ScopedContextAcquire \<Rightarrow> machine \<Rightarrow> error option \<times> machine" where
  "acquire_block fs ctx m =
     (case pushNextTask_each fs ctx of
        (err, ctx') \<Rightarrow> (err, ScopedContextAcquire_dtor ctx' m))"

section \<open>Produce scope\<close>

record ScopedContextProduce = ScopedContextBase +
  event' :: SharedEventPtr

datatype produce_ctor =
    Produce_streamID nat
  | Produce_data ProductBase
  | Produce_state nat

text \<open>
  The default member initializer \<open>event_ = getEventCache().get()\<close> runs once the base
  part is constructed.
\<close>

definition init_Produce ::
    "error + (ScopedContextBase \<times> machine) \<Rightarrow> error + (ScopedContextProduce \<times> machine)" where
  "init_Produce base =
     (case base of
        Inl e \<Rightarrow> Inl e
      | Inr (b, m) \<Rightarrow>
          (case EventCache_get m of
             Inl e \<Rightarrow> Inl e
           | Inr (ev, m') \<Rightarrow>
               Inr (\<lparr>currentDevice' = currentDevice' b, stream' = stream' b, event' = ev\<rparr>, m')))"

fun ScopedContextProduce_ctor ::
    "produce_ctor \<Rightarrow> machine \<Rightarrow> error + (ScopedContextProduce \<times> machine)" where
  "ScopedContextProduce_ctor (Produce_streamID streamID) m =
     init_Produce (ScopedContextBase_streamID streamID m)"
| "ScopedContextProduce_ctor (Produce_data data) m =
     init_Produce (ScopedContextBase_data data m)"
| "ScopedContextProduce_ctor (Produce_state state) m =
     (let dev = ContextState_device (states m state);
          (strm, released) = releaseStreamPtr (states m state)
      in init_Produce
           (ScopedContextBase_device_stream dev strm (m\<lparr>states := (states m)(state := released)\<rparr>)))"

text \<open>The private constructor for tests takes its event as an argument.\<close>

definition ScopedContextProduce_test ::
    "int \<Rightarrow> SharedStreamPtr \<Rightarrow> SharedEventPtr \<Rightarrow> machine
       \<Rightarrow> error + (ScopedContextProduce \<times> machine)" where
  "ScopedContextProduce_test dev strm ev m =
     (case ScopedContextBase_device_stream dev strm m of
        Inl e \<Rightarrow> Inl e
      | Inr (b, m') \<Rightarrow>
          Inr (\<lparr>currentDevice' = currentDevice' b, stream' = stream' b, event' = ev\<rparr>, m'))"

definition wrap :: "ScopedContextProduce \<Rightarrow> 'a \<Rightarrow> 'a Product" where
  "wrap ctx val = new_Product (device ctx) (streamPtr ctx) (event' ctx) val"

definition emplace :: "ScopedContextProduce \<Rightarrow> 'a Event \<Rightarrow> nat \<Rightarrow> 'a \<Rightarrow> 'a Event" where
  "emplace ctx iEvent token val =
     Event_emplace iEvent token (device ctx) (streamPtr ctx) (event' ctx) val"

text \<open>
  Any sequence of \<open>wrap\<close> and \<open>emplace\<close> calls on one scope: the result wrappers created, in
  order (an emplaced one is read back from the store), and the store at the end.
\<close>

datatype 'a produce_op = Wrap 'a | Emplace nat 'a

fun produce_ops ::
    "ScopedContextProduce \<Rightarrow> 'a produce_op list \<Rightarrow> 'a Event \<Rightarrow> 'a Product list \<times> 'a Event" where
  "produce_ops ctx [] iEvent = ([], iEvent)"
| "produce_ops ctx (Wrap val # ops) iEvent =
     (case produce_ops ctx ops iEvent of
        (ps, iEvent') \<Rightarrow> (wrap ctx val # ps, iEvent'))"
| "produce_ops ctx (Emplace token val # ops) iEvent =
     (case produce_ops ctx ops (emplace ctx iEvent token val) of
        (ps, iEvent') \<Rightarrow> (Event_get (emplace ctx iEvent token val) token # ps, iEvent'))"

section \<open>Task scope\<close>

record ScopedContextTask = ScopedContextBase +
  holderHelper'' :: ScopedContextHolderHelper
  contextState'' :: "nat option"

text \<open>
  The constructor reads the device and the stream through the pointer it is given.
  Reading through a null pointer is undefined in the source; here it is an error.
\<close>

definition ScopedContextTask_ctor ::
    "nat option \<Rightarrow> WaitingTaskWithArenaHolder \<Rightarrow> machine
       \<Rightarrow> error + (ScopedContextTask \<times> machine)" where
  "ScopedContextTask_ctor state waitingTaskHolder m =
     (case state of
        None \<Rightarrow> Inl NullContextState
      | Some a \<Rightarrow>
          (case ScopedContextBase_device_stream
                  (ContextState_device (states m a)) (ContextState_streamPtr (states m a)) m of
             Inl e \<Rightarrow> Inl e
           | Inr (b, m') \<Rightarrow>
               Inr (\<lparr>currentDevice' = currentDevice' b, stream' = stream' b,
                     holderHelper'' = \<lparr>waitingTaskHolder' = waitingTaskHolder\<rparr>,
                     contextState'' = state\<rparr>, m')))"

definition ScopedContextTask_pushNextTask :: "nat \<Rightarrow> ScopedContextTask \<Rightarrow> ScopedContextTask" where
  "ScopedContextTask_pushNextTask f ctx =
     ctx\<lparr>holderHelper'' := pushNextTask f (contextState'' ctx) (holderHelper'' ctx)\<rparr>"

text \<open>
  Modelled from the spec: the destructor is declared in the header and defined
  elsewhere. The \<open>enqueueCallback\<close> call happens exactly once per scope lifetime; as for
  the Acquire scope it is made on destruction, with the scope's device and stream.
\<close>

definition ScopedContextTask_dtor :: "ScopedContextTask \<Rightarrow> machine \<Rightarrow> machine" where
  "ScopedContextTask_dtor ctx m = enqueueCallback (device ctx) (stream ctx) (holderHelper'' ctx) m"

section \<open>Firing a held notification\<close>

text \<open>
  What the host observes when a holder is signalled: a framework task is resumed, or a
  user callback runs on a Task scope.
\<close>

datatype notification =
    DoneWaiting nat
  | RunCallback nat ScopedContextTask

text \<open>
  The closure of \<open>pushNextTask\<close>, called with a holder \<open>h\<close>:
  \<open>func(ScopedContextTask{state, std::move(h)})\<close>. The temporary Task scope is constructed
  from the captured state pointer and \<open>h\<close>, \<open>func\<close> runs on it, and the scope is destroyed
  when the call ends. User callbacks are opaque: they are taken to leave the holder of
  the Task scope they are given in place.
\<close>

fun TaskLambda_call ::
    "callback \<Rightarrow> WaitingTaskWithArenaHolder \<Rightarrow> machine \<Rightarrow> error + (notification \<times> machine)" where
  "TaskLambda_call (TaskLambda state func) h m =
     (case ScopedContextTask_ctor state h m of
        Inl e \<Rightarrow> Inl e
      | Inr (task, m1) \<Rightarrow> Inr (RunCallback func task, ScopedContextTask_dtor task m1))"

text \<open>
  Modelled from the spec: signalling a holder. A framework task is resumed; a holder made
  by \<open>make_waiting_task_with_holder h f\<close> calls \<open>f\<close> with the holder \<open>h\<close> it was composed
  over.
\<close>

fun doneWaiting ::
    "WaitingTaskWithArenaHolder \<Rightarrow> machine \<Rightarrow> error + (notification \<times> machine)" where
  "doneWaiting (WaitingTask t) m = Inr (DoneWaiting t, m)"
| "doneWaiting (WaitingTaskWithHolder h f) m = TaskLambda_call f h m"

text \<open>The holders that a list of driver calls registers for stream completion.\<close>

fun enqueued :: "call list \<Rightarrow> WaitingTaskWithArenaHolder list" where
  "enqueued [] = []"
| "enqueued (StreamAddCallback s d h # cs) = h # enqueued cs"
| "enqueued (c # cs) = enqueued cs"

text \<open>
  Modelled from the spec: the chain of notifications that starts when the driver signals
  a registered holder. Signalling the holder may register a further holder with the
  driver (the calls added to the machine say which); when the stream completes again the
  driver signals that one, and so on until a signal registers nothing. A failure ends the
  chain with the error.
\<close>

function fire ::
    "WaitingTaskWithArenaHolder \<Rightarrow> machine \<Rightarrow> error + (notification list \<times> machine)" where
  "fire h m =
     (case doneWaiting h m of
        Inl e \<Rightarrow> Inl e
      | Inr (n, m1) \<Rightarrow>
          (case enqueued (drop (length (calls m)) (calls m1)) of
             [] \<Rightarrow> Inr ([n], m1)
           | h' # hs \<Rightarrow>
               (case fire h' m1 of
                  Inl e \<Rightarrow> Inl e
                | Inr (ns, m2) \<Rightarrow> Inr (n # ns, m2))))"
  by pat_completeness auto
termination
proof (relation "measure (\<lambda>(h, m). size h)")
  show "wf (measure (\<lambda>(h, m). size h))" by simp
next
  fix h :: WaitingTaskWithArenaHolder and m :: machine
    and x :: "notification \<times> machine" and n m1 h' hs
  assume fired: "doneWaiting h m = Inr x" and x: "(n, m1) = x"
    and reg: "enqueued (drop (length (calls m)) (calls m1)) = h' # hs"
  show "((h', m1), (h, m)) \<in> measure (\<lambda>(h, m). size h)"
  proof (cases h)
    case (WaitingTask t)
    with fired x reg show ?thesis by auto
  next
    case (WaitingTaskWithHolder h0 f)
    obtain state func where f: "f = TaskLambda state func" by (cases f)
    from fired x reg show ?thesis
      unfolding WaitingTaskWithHolder f
      by (auto simp add: ScopedContextTask_ctor_def ScopedContextBase_device_stream_def
          setDevice_def ScopedContextTask_dtor_def enqueueCallback_def
          split: option.splits sum.splits if_splits)
  qed
qed

declare fire.simps [simp del]

section \<open>Sample inputs\<close>

definition machine0 :: machine where
  "machine0 =
     \<lparr>deviceCount = 2, chooseDevice = (\<lambda>k. int (k mod 2)), driverDevice = 0,
      streamCache = [10, 11], eventCache = [20, 21],
      states = (\<lambda>a. \<lparr>cs_device = 1, cs_stream = Some 5\<rparr>), calls = []\<rparr>"

definition consumer0 :: ScopedContextBase where
  "consumer0 = \<lparr>currentDevice' = 0, stream' = Some 2\<rparr>"

definition product0 :: "int Product" where
  "product0 =
     \<lparr>product_device = 0, product_stream = Some 1, product_event = Some 7,
      available = False, data' = 42\<rparr>"

definition product_available :: "int Product" where
  "product_available = product0\<lparr>available := True\<rparr>"

definition product_same_stream :: "int Product" where
  "product_same_stream = product0\<lparr>product_stream := Some 2\<rparr>"

definition event0 :: "int Event" where
  "event0 = (\<lambda>token. product0)"

definition machine_no_events :: machine where
  "machine_no_events = machine0\<lparr>eventCache := []\<rparr>"

definition machine1 :: machine where
  "machine1 = machine0\<lparr>driverDevice := 1, streamCache := [11], calls := [SetDevice 1]\<rparr>"

definition acquire0 :: ScopedContextAcquire where
  "acquire0 =
     \<lparr>currentDevice' = 1, stream' = Some 10,
      holderHelper' = \<lparr>waitingTaskHolder' = WaitingTask 1\<rparr>, contextState' = None\<rparr>"

definition acquire1 :: ScopedContextAcquire where
  "acquire1 = acquire0\<lparr>contextState' := Some 4\<rparr>"

definition produce0 :: ScopedContextProduce where
  "produce0 = \<lparr>currentDevice' = 1, stream' = Some 5, event' = Some 20\<rparr>"

definition machine2 :: machine where
  "machine2 =
     machine0\<lparr>driverDevice := 1, eventCache := [21],
       states := (states machine0)(4 := \<lparr>cs_device = 1, cs_stream = None\<rparr>),
       calls := [SetDevice 1]\<rparr>"

definition produce1 :: ScopedContextProduce where
  "produce1 = \<lparr>currentDevice' = 1, stream' = Some 10, event' = Some 20\<rparr>"

definition machine3 :: machine where
  "machine3 = machine1\<lparr>eventCache := [21]\<rparr>"

definition task0 :: ScopedContextTask where
  "task0 =
     \<lparr>currentDevice' = 1, stream' = Some 5,
      holderHelper'' = \<lparr>waitingTaskHolder' = WaitingTask 1\<rparr>, contextState'' = Some 4\<rparr>"

definition machine4 :: machine where
  "machine4 = machine0\<lparr>driverDevice := 1, calls := [SetDevice 1]\<rparr>"

definition helper0 :: ScopedContextHolderHelper where
  "helper0 = \<lparr>waitingTaskHolder' = WaitingTask 1\<rparr>"

definition task1 :: ScopedContextTask where
  "task1 =
     \<lparr>currentDevice' = 1, stream' = Some 5,
      holderHelper'' =
        \<lparr>waitingTaskHolder' = WaitingTaskWithHolder (WaitingTask 1) (TaskLambda (Some 4) 7)\<rparr>,
      contextState'' = Some 4\<rparr>"

definition machine5 :: machine where
  "machine5 =
     machine0\<lparr>driverDevice := 1,
       calls := [SetDevice 1,
                 StreamAddCallback (Some 5) 1
                   (WaitingTaskWithHolder (WaitingTask 1) (TaskLambda (Some 4) 7)),
                 SetDevice 1, StreamAddCallback (Some 5) 1 (WaitingTask 1)]\<rparr>"

section \<open>The synchronizing getter\<close>

text \<open>
  Claim C1. Reading a result wrapper that is not available and that was produced on a
  stream other than the consuming scope's: the getter issues exactly one wait-on-event
  call, which makes the consuming scope's stream wait for the wrapper's event, and
  returns the wrapped value. The wait is an instruction handed to the driver; nothing
  else of the machine changes.
\<close>

theorem get_waits_once:
  assumes "\<not> available r" and "product_stream r \<noteq> stream ctx"
  shows "get ctx r m =
           (data' r, m\<lparr>calls := calls m @ [StreamWaitEvent (stream ctx) (product_event r)]\<rparr>)
         \<and> filter is_wait (calls (snd (get ctx r m))) =
             filter is_wait (calls m) @ [StreamWaitEvent (stream ctx) (product_event r)]"
  using assms by (simp add: get_def synchronizeStreams_def isAvailable_def)

theorem get_waits_once_witness:
  "\<not> available product0 \<and> product_stream product0 \<noteq> stream consumer0
   \<and> get consumer0 product0 machine0 =
       (42, machine0\<lparr>calls := [StreamWaitEvent (Some 2) (Some 7)]\<rparr>)"
  using get_waits_once [of product0 consumer0 machine0]
  by (simp add: product0_def consumer0_def machine0_def stream_def)

text \<open>
  Claim C2. Reading a result wrapper that is available, or that was produced on the
  consuming scope's own stream: the getter issues no wait-on-event call (the machine is
  left as it was) and returns the wrapped value.
\<close>

theorem get_no_wait:
  assumes "available r \<or> product_stream r = stream ctx"
  shows "get ctx r m = (data' r, m)
         \<and> filter is_wait (calls (snd (get ctx r m))) = filter is_wait (calls m)"
  using assms by (auto simp add: get_def synchronizeStreams_def isAvailable_def)

theorem get_no_wait_witness:
  "available product_available \<and> product_stream product_available \<noteq> stream consumer0
   \<and> get consumer0 product_available machine0 = (42, machine0)
   \<and> \<not> available product_same_stream \<and> product_stream product_same_stream = stream consumer0
   \<and> get consumer0 product_same_stream machine0 = (42, machine0)"
  using get_no_wait [of product_available consumer0 machine0]
    get_no_wait [of product_same_stream consumer0 machine0]
  by (simp add: product_available_def product_same_stream_def product0_def consumer0_def
      stream_def)

text \<open>
  Claim C10. The getter addressed by a token returns the same value and leaves the same
  machine state, hence issues the same driver calls, as the getter applied to the result
  wrapper that the event holds for that token.
\<close>

theorem get_token_eq:
  "get_token ctx iEvent token m = get ctx (Event_get iEvent token) m"
  by (simp add: get_token_def)

theorem get_token_eq_witness:
  "get_token consumer0 event0 3 machine0 =
     (42, machine0\<lparr>calls := [StreamWaitEvent (Some 2) (Some 7)]\<rparr>)"
  using get_token_eq [of consumer0 event0 3 machine0]
  by (simp add: get_def synchronizeStreams_def isAvailable_def Event_get_def event0_def
      product0_def consumer0_def machine0_def stream_def)

section \<open>The continuation holder\<close>

lemma doneWaiting_enqueues_at_most_one:
  assumes "doneWaiting h m = Inr (n, m1)"
  shows "length (enqueued (drop (length (calls m)) (calls m1))) \<le> 1"
proof (cases h)
  case (WaitingTask t)
  with assms show ?thesis by auto
next
  case (WaitingTaskWithHolder h0 f)
  obtain state func where "f = TaskLambda state func" by (cases f)
  with WaitingTaskWithHolder assms show ?thesis
    by (auto simp add: ScopedContextTask_ctor_def ScopedContextBase_device_stream_def
        setDevice_def ScopedContextTask_dtor_def enqueueCallback_def
        split: option.splits sum.splits if_splits)
qed

lemma fire_WaitingTask:
  "fire (WaitingTask t) m = Inr ([DoneWaiting t], m)"
  by (subst fire.simps) simp

lemma fire_null_state:
  "fire (WaitingTaskWithHolder h (TaskLambda None func)) m = Inl NullContextState"
  by (subst fire.simps) (simp add: ScopedContextTask_ctor_def)

lemma fire_invalid_device:
  assumes "\<not> (0 \<le> ContextState_device (states m a) \<and> ContextState_device (states m a) < deviceCount m)"
  shows "fire (WaitingTaskWithHolder h (TaskLambda (Some a) func)) m =
           Inl (InvalidDevice (ContextState_device (states m a)))"
  using assms
  by (subst fire.simps)
    (auto simp add: ScopedContextTask_ctor_def ScopedContextBase_device_stream_def setDevice_def)

lemma fire_WaitingTaskWithHolder:
  assumes "0 \<le> ContextState_device (states m a)"
    and "ContextState_device (states m a) < deviceCount m"
  shows "fire (WaitingTaskWithHolder h (TaskLambda (Some a) func)) m =
           (case fire h
                   (m\<lparr>driverDevice := ContextState_device (states m a),
                      calls := calls m @
                        [SetDevice (ContextState_device (states m a)),
                         StreamAddCallback (ContextState_streamPtr (states m a))
                           (ContextState_device (states m a)) h]\<rparr>) of
              Inl e \<Rightarrow> Inl e
            | Inr (ns, m2) \<Rightarrow>
                Inr (RunCallback func
                       \<lparr>currentDevice' = ContextState_device (states m a),
                        stream' = ContextState_streamPtr (states m a),
                        holderHelper'' = \<lparr>waitingTaskHolder' = h\<rparr>,
                        contextState'' = Some a\<rparr> # ns, m2))"
  using assms
  by (subst fire.simps)
    (simp add: ScopedContextTask_ctor_def ScopedContextBase_device_stream_def setDevice_def
      ScopedContextTask_dtor_def enqueueCallback_def device_def stream_def)

text \<open>
  Claim C4. \<open>pushNextTask\<close> installs, in place of the held notification target, the
  composition of that target with the given callback and continuation state. After two
  calls the holder holds the second callback composed over the first composed over the
  original target, and that one composition is what \<open>enqueueCallback\<close> registers for stream
  completion. When the driver signals it, and the two continuation states name devices
  the driver accepts, the second callback runs on a Task scope that is built from the
  second state and holds the first composition; that scope's destruction registers the
  first composition, whose signal runs the first callback on a Task scope that is built
  from the first state and holds the original target; that scope's destruction registers
  the original target, and the chain goes on with whatever signalling the original target
  gives. The earlier targets are part of the chain and are not dropped. With a null state
  pointer or a device the driver refuses, constructing the Task scope fails and the chain
  ends with that error.
\<close>

theorem pushNextTask_composes:
  "waitingTaskHolder' (pushNextTask f state hh) =
     WaitingTaskWithHolder (waitingTaskHolder' hh) (TaskLambda state f)
   \<and> waitingTaskHolder' (pushNextTask f2 state2 (pushNextTask f1 state1 hh)) =
       WaitingTaskWithHolder
         (WaitingTaskWithHolder (waitingTaskHolder' hh) (TaskLambda state1 f1))
         (TaskLambda state2 f2)
   \<and> calls (enqueueCallback dev strm (pushNextTask f2 state2 (pushNextTask f1 state1 hh)) m) =
       calls m @ [StreamAddCallback strm dev
         (WaitingTaskWithHolder
            (WaitingTaskWithHolder (waitingTaskHolder' hh) (TaskLambda state1 f1))
            (TaskLambda state2 f2))]
   \<and> (0 \<le> ContextState_device (states m a1) \<and> ContextState_device (states m a1) < deviceCount m
      \<and> 0 \<le> ContextState_device (states m a2) \<and> ContextState_device (states m a2) < deviceCount m
      \<longrightarrow>
      fire (waitingTaskHolder' (pushNextTask f2 (Some a2) (pushNextTask f1 (Some a1) hh))) m =
        (case fire (waitingTaskHolder' hh)
                (m\<lparr>driverDevice := ContextState_device (states m a1),
                   calls := calls m @
                     [SetDevice (ContextState_device (states m a2)),
                      StreamAddCallback (ContextState_streamPtr (states m a2))
                        (ContextState_device (states m a2))
                        (waitingTaskHolder' (pushNextTask f1 (Some a1) hh)),
                      SetDevice (ContextState_device (states m a1)),
                      StreamAddCallback (ContextState_streamPtr (states m a1))
                        (ContextState_device (states m a1)) (waitingTaskHolder' hh)]\<rparr>) of
           Inl e \<Rightarrow> Inl e
         | Inr (ns, m') \<Rightarrow>
             Inr (RunCallback f2
                    \<lparr>currentDevice' = ContextState_device (states m a2),
                     stream' = ContextState_streamPtr (states m a2),
                     holderHelper'' =
                       \<lparr>waitingTaskHolder' = waitingTaskHolder' (pushNextTask f1 (Some a1) hh)\<rparr>,
                     contextState'' = Some a2\<rparr>
                  # RunCallback f1
                      \<lparr>currentDevice' = ContextState_device (states m a1),
                       stream' = ContextState_streamPtr (states m a1),
                       holderHelper'' = \<lparr>waitingTaskHolder' = waitingTaskHolder' hh\<rparr>,
                       contextState'' = Some a1\<rparr>
                  # ns, m')))"
proof -
  let ?h0 = "waitingTaskHolder' hh"
  let ?h1 = "WaitingTaskWithHolder ?h0 (TaskLambda (Some a1) f1)"
  let ?d1 = "ContextState_device (states m a1)"
  let ?d2 = "ContextState_device (states m a2)"
  let ?m1 = "m\<lparr>driverDevice := ?d2,
                calls := calls m @
                  [SetDevice ?d2,
                   StreamAddCallback (ContextState_streamPtr (states m a2)) ?d2 ?h1]\<rparr>"
  have push: "\<And>g st k. waitingTaskHolder' (pushNextTask g st k) =
      WaitingTaskWithHolder (waitingTaskHolder' k) (TaskLambda st g)"
    by (simp add: pushNextTask_def replaceWaitingTaskHolder_def
        make_waiting_task_with_holder_def)
  have chain: "fire (WaitingTaskWithHolder ?h1 (TaskLambda (Some a2) f2)) m =
      (case fire ?h0
              (m\<lparr>driverDevice := ?d1,
                 calls := calls m @
                   [SetDevice ?d2,
                    StreamAddCallback (ContextState_streamPtr (states m a2)) ?d2 ?h1,
                    SetDevice ?d1,
                    StreamAddCallback (ContextState_streamPtr (states m a1)) ?d1 ?h0]\<rparr>) of
         Inl e \<Rightarrow> Inl e
       | Inr (ns, m') \<Rightarrow>
           Inr (RunCallback f2
                  \<lparr>currentDevice' = ?d2, stream' = ContextState_streamPtr (states m a2),
                   holderHelper'' = \<lparr>waitingTaskHolder' = ?h1\<rparr>, contextState'' = Some a2\<rparr>
                # RunCallback f1
                    \<lparr>currentDevice' = ?d1, stream' = ContextState_streamPtr (states m a1),
                     holderHelper'' = \<lparr>waitingTaskHolder' = ?h0\<rparr>, contextState'' = Some a1\<rparr>
                # ns, m'))"
    if v1: "0 \<le> ?d1" "?d1 < deviceCount m" and v2: "0 \<le> ?d2" "?d2 < deviceCount m"
  proof -
    have second: "fire (WaitingTaskWithHolder ?h1 (TaskLambda (Some a2) f2)) m =
        (case fire ?h1 ?m1 of
           Inl e \<Rightarrow> Inl e
         | Inr (ns, m2) \<Rightarrow>
             Inr (RunCallback f2
                    \<lparr>currentDevice' = ?d2, stream' = ContextState_streamPtr (states m a2),
                     holderHelper'' = \<lparr>waitingTaskHolder' = ?h1\<rparr>, contextState'' = Some a2\<rparr>
                  # ns, m2))"
      using v2 by (rule fire_WaitingTaskWithHolder)
    have "0 \<le> ContextState_device (states ?m1 a1)"
      and "ContextState_device (states ?m1 a1) < deviceCount ?m1"
      using v1 by simp_all
    then have first: "fire ?h1 ?m1 =
        (case fire ?h0
                (?m1\<lparr>driverDevice := ContextState_device (states ?m1 a1),
                    calls := calls ?m1 @
                      [SetDevice (ContextState_device (states ?m1 a1)),
                       StreamAddCallback (ContextState_streamPtr (states ?m1 a1))
                         (ContextState_device (states ?m1 a1)) ?h0]\<rparr>) of
           Inl e \<Rightarrow> Inl e
         | Inr (ns, m2) \<Rightarrow>
             Inr (RunCallback f1
                    \<lparr>currentDevice' = ContextState_device (states ?m1 a1),
                     stream' = ContextState_streamPtr (states ?m1 a1),
                     holderHelper'' = \<lparr>waitingTaskHolder' = ?h0\<rparr>,
                     contextState'' = Some a1\<rparr> # ns, m2))"
      by (rule fire_WaitingTaskWithHolder)
    show ?thesis
      unfolding second first by (simp split: sum.splits)
  qed
  have fired: "0 \<le> ?d1 \<and> ?d1 < deviceCount m \<and> 0 \<le> ?d2 \<and> ?d2 < deviceCount m \<longrightarrow>
      fire (WaitingTaskWithHolder ?h1 (TaskLambda (Some a2) f2)) m =
      (case fire ?h0
              (m\<lparr>driverDevice := ?d1,
                 calls := calls m @
                   [SetDevice ?d2,
                    StreamAddCallback (ContextState_streamPtr (states m a2)) ?d2 ?h1,
                    SetDevice ?d1,
                    StreamAddCallback (ContextState_streamPtr (states m a1)) ?d1 ?h0]\<rparr>) of
         Inl e \<Rightarrow> Inl e
       | Inr (ns, m') \<Rightarrow>
           Inr (RunCallback f2
                  \<lparr>currentDevice' = ?d2, stream' = ContextState_streamPtr (states m a2),
                   holderHelper'' = \<lparr>waitingTaskHolder' = ?h1\<rparr>, contextState'' = Some a2\<rparr>
                # RunCallback f1
                    \<lparr>currentDevice' = ?d1, stream' = ContextState_streamPtr (states m a1),
                     holderHelper'' = \<lparr>waitingTaskHolder' = ?h0\<rparr>, contextState'' = Some a1\<rparr>
                # ns, m'))"
    using chain by blast
  have composed: "waitingTaskHolder' (pushNextTask f2 state2 (pushNextTask f1 state1 hh)) =
      WaitingTaskWithHolder
        (WaitingTaskWithHolder (waitingTaskHolder' hh) (TaskLambda state1 f1))
        (TaskLambda state2 f2)"
    by (simp add: push)
  have registered:
    "calls (enqueueCallback dev strm (pushNextTask f2 state2 (pushNextTask f1 state1 hh)) m) =
       calls m @ [StreamAddCallback strm dev
         (WaitingTaskWithHolder
            (WaitingTaskWithHolder (waitingTaskHolder' hh) (TaskLambda state1 f1))
            (TaskLambda state2 f2))]"
    by (simp add: push enqueueCallback_def)
  show ?thesis
    apply (intro conjI)
       apply (rule push)
      apply (rule composed)
     apply (rule registered)
    apply (unfold push)
    apply (rule fired)
    done
qed

theorem pushNextTask_composes_witness:
  "0 \<le> ContextState_device (states machine0 4)
   \<and> ContextState_device (states machine0 4) < deviceCount machine0
   \<and> fire (waitingTaskHolder' (pushNextTask 8 (Some 4) (pushNextTask 7 (Some 4) helper0)))
       machine0 =
     Inr ([RunCallback 8 task1, RunCallback 7 task0, DoneWaiting 1], machine5)"
proof -
  have valid: "0 \<le> ContextState_device (states machine0 4)
      \<and> ContextState_device (states machine0 4) < deviceCount machine0"
    by (simp add: ContextState_device_def machine0_def)
  show ?thesis
    using valid pushNextTask_composes [of 7 "Some 4" helper0 8 "Some 4" 7 "Some 4" 0 None
        machine0 4 4]
    by (simp add: fire_WaitingTask pushNextTask_def replaceWaitingTaskHolder_def
        make_waiting_task_with_holder_def helper0_def task0_def task1_def machine5_def
        ContextState_device_def ContextState_streamPtr_def machine0_def)
qed

section \<open>The Acquire scope\<close>

lemma pushNextTask_each_base:
  "pushNextTask_each fs ctx = (err, ctx') \<Longrightarrow> device ctx' = device ctx \<and> stream ctx' = stream ctx"
proof (induction fs arbitrary: ctx)
  case Nil
  then show ?case by simp
next
  case (Cons f fs)
  show ?case
  proof (cases "ScopedContextAcquire_pushNextTask f ctx")
    case (Inl e)
    with Cons.prems show ?thesis by simp
  next
    case (Inr c)
    then have "device c = device ctx \<and> stream c = stream ctx"
      by (auto simp add: ScopedContextAcquire_pushNextTask_def device_def stream_def
          split: if_splits sum.splits)
    moreover from Inr Cons.prems have "pushNextTask_each fs c = (err, ctx')" by simp
    ultimately show ?thesis using Cons.IH by metis
  qed
qed

text \<open>
  Claim C3. For every Acquire scope and every list of callbacks (of any length N,
  the empty list included), calling \<open>pushNextTask\<close> once per callback and then leaving the
  block adds exactly one \<open>enqueueCallback\<close> registration to the driver calls. It is the
  last call, made by the destructor with the scope's device and stream, and it carries the
  notification target held at that moment. \<open>pushNextTask\<close> has no access to the machine.
\<close>

theorem acquire_enqueues_once:
  "calls (snd (acquire_block fs ctx m)) =
     calls m @ [StreamAddCallback (stream ctx) (device ctx)
                  (waitingTaskHolder' (holderHelper' (snd (pushNextTask_each fs ctx))))]
   \<and> length (filter is_enqueue (calls (snd (acquire_block fs ctx m)))) =
       Suc (length (filter is_enqueue (calls m)))"
proof -
  obtain err ctx' where r: "pushNextTask_each fs ctx = (err, ctx')"
    by (cases "pushNextTask_each fs ctx")
  then have "device ctx' = device ctx \<and> stream ctx' = stream ctx"
    by (rule pushNextTask_each_base)
  with r show ?thesis
    by (simp add: acquire_block_def ScopedContextAcquire_dtor_def enqueueCallback_def)
qed

theorem acquire_enqueues_once_witness:
  "calls (snd (acquire_block [] acquire0 machine1)) =
     [SetDevice 1, StreamAddCallback (Some 10) 1 (WaitingTask 1)]
   \<and> calls (snd (acquire_block [7, 8] acquire0 machine1)) =
     [SetDevice 1, StreamAddCallback (Some 10) 1 (WaitingTask 1)]
   \<and> calls (snd (acquire_block [7, 8] acquire1 machine1)) =
     [SetDevice 1, StreamAddCallback (Some 10) 1
        (WaitingTaskWithHolder (WaitingTaskWithHolder (WaitingTask 1) (TaskLambda (Some 4) 7))
           (TaskLambda (Some 4) 8))]"
  using acquire_enqueues_once [of "[]" acquire0 machine1]
    acquire_enqueues_once [of "[7, 8]" acquire0 machine1]
    acquire_enqueues_once [of "[7, 8]" acquire1 machine1]
  by (simp add: ScopedContextAcquire_pushNextTask_def throwNoState_def pushNextTask_def
      replaceWaitingTaskHolder_def make_waiting_task_with_holder_def
      acquire0_def acquire1_def machine1_def machine0_def device_def stream_def)

lemma init_Acquire_Inr:
  "init_Acquire h st base = Inr (ctx, m') \<Longrightarrow>
     contextState' ctx = st \<and> holderHelper' ctx = \<lparr>waitingTaskHolder' = h\<rparr>"
  by (auto simp add: init_Acquire_def split: sum.splits)

lemma acquire_ctor_state:
  "ScopedContextAcquire_ctor args m = Inr (ctx, m') \<Longrightarrow> contextState' ctx = acquire_state args"
  by (cases args) (auto dest: init_Acquire_Inr)

lemma acquire0_ctor:
  "ScopedContextAcquire_ctor (Acquire_streamID 3 (WaitingTask 1)) machine0 = Inr (acquire0, machine1)"
  by (simp add: init_Acquire_def ScopedContextBase_streamID_def setDevice_def StreamCache_get_def
      machine0_def machine1_def acquire0_def)

lemma acquire1_ctor:
  "ScopedContextAcquire_ctor (Acquire_streamID_state 3 (WaitingTask 1) 4) machine0 =
     Inr (acquire1, machine1)"
  by (simp add: init_Acquire_def ScopedContextBase_streamID_def setDevice_def StreamCache_get_def
      machine0_def machine1_def acquire0_def acquire1_def)

text \<open>
  Claim C6. On an Acquire scope built by a constructor that takes no continuation state,
  \<open>pushNextTask\<close> fails with \<open>NoState\<close>. On one built with a continuation state it succeeds,
  and the scope's holder helper has pushed the callback together with the stored state
  pointer; nothing else of the scope changes.
\<close>

theorem acquire_pushNextTask_state:
  assumes "ScopedContextAcquire_ctor args m = Inr (ctx, m')"
  shows "(acquire_state args = None \<longrightarrow> ScopedContextAcquire_pushNextTask f ctx = Inl NoState)
       \<and> (\<forall>a. acquire_state args = Some a \<longrightarrow>
            ScopedContextAcquire_pushNextTask f ctx =
              Inr (ctx\<lparr>holderHelper' := pushNextTask f (Some a) (holderHelper' ctx)\<rparr>))"
  using acquire_ctor_state [OF assms]
  by (simp add: ScopedContextAcquire_pushNextTask_def throwNoState_def)

theorem acquire_pushNextTask_state_witness:
  "ScopedContextAcquire_ctor (Acquire_streamID 3 (WaitingTask 1)) machine0 = Inr (acquire0, machine1)
   \<and> ScopedContextAcquire_pushNextTask 7 acquire0 = Inl NoState
   \<and> ScopedContextAcquire_ctor (Acquire_streamID_state 3 (WaitingTask 1) 4) machine0 =
       Inr (acquire1, machine1)
   \<and> ScopedContextAcquire_pushNextTask 7 acquire1 =
       Inr (acquire1\<lparr>holderHelper' :=
              \<lparr>waitingTaskHolder' = WaitingTaskWithHolder (WaitingTask 1) (TaskLambda (Some 4) 7)\<rparr>\<rparr>)"
  using acquire_pushNextTask_state [OF acquire0_ctor, of 7]
    acquire_pushNextTask_state [OF acquire1_ctor, of 7] acquire0_ctor acquire1_ctor
  by (simp add: pushNextTask_def replaceWaitingTaskHolder_def make_waiting_task_with_holder_def
      acquire0_def acquire1_def)

section \<open>The Produce scope\<close>

lemma setDevice_Inr:
  "setDevice d m = Inr m1 \<Longrightarrow>
     0 \<le> d \<and> d < deviceCount m \<and> m1 = m\<lparr>driverDevice := d, calls := calls m @ [SetDevice d]\<rparr>"
  by (auto simp add: setDevice_def split: if_splits)

lemma base_streamID_Inr:
  "ScopedContextBase_streamID k m = Inr (b, m1) \<Longrightarrow>
     eventCache m1 = eventCache m \<and> states m1 = states m \<and> deviceCount m1 = deviceCount m"
  by (auto simp add: ScopedContextBase_streamID_def StreamCache_get_def
      split: sum.splits list.splits dest!: setDevice_Inr)

lemma base_data_Inr:
  "ScopedContextBase_data d m = Inr (b, m1) \<Longrightarrow>
     eventCache m1 = eventCache m \<and> states m1 = states m \<and> deviceCount m1 = deviceCount m"
  by (auto simp add: ScopedContextBase_data_def split: sum.splits dest!: setDevice_Inr)

lemma base_device_stream_Inr:
  "ScopedContextBase_device_stream dev strm m = Inr (b, m1) \<Longrightarrow>
     currentDevice' b = dev \<and> stream' b = strm \<and> 0 \<le> dev \<and> dev < deviceCount m \<and>
     m1 = m\<lparr>driverDevice := dev, calls := calls m @ [SetDevice dev]\<rparr>"
  by (auto simp add: ScopedContextBase_device_stream_def split: sum.splits dest!: setDevice_Inr)

lemma init_Produce_Inr:
  "init_Produce base = Inr (ctx, m') \<Longrightarrow>
     \<exists>b m1. base = Inr (b, m1) \<and> eventCache m1 \<noteq> [] \<and>
       currentDevice' ctx = currentDevice' b \<and> stream' ctx = stream' b \<and>
       event' ctx = Some (hd (eventCache m1)) \<and>
       m' = m1\<lparr>eventCache := tl (eventCache m1)\<rparr>"
  by (auto simp add: init_Produce_def EventCache_get_def split: sum.splits list.splits)

lemma produce_ctor_event:
  assumes "ScopedContextProduce_ctor args m = Inr (ctx, m')"
  shows "eventCache m \<noteq> [] \<and> event' ctx = Some (hd (eventCache m))
         \<and> eventCache m' = tl (eventCache m)"
proof (cases args)
  case (Produce_streamID k)
  with assms obtain b m1 where "ScopedContextBase_streamID k m = Inr (b, m1)"
    and "eventCache m1 \<noteq> []" and "event' ctx = Some (hd (eventCache m1))"
    and "m' = m1\<lparr>eventCache := tl (eventCache m1)\<rparr>"
    by (auto dest!: init_Produce_Inr)
  then show ?thesis by (auto dest!: base_streamID_Inr)
next
  case (Produce_data d)
  with assms obtain b m1 where "ScopedContextBase_data d m = Inr (b, m1)"
    and "eventCache m1 \<noteq> []" and "event' ctx = Some (hd (eventCache m1))"
    and "m' = m1\<lparr>eventCache := tl (eventCache m1)\<rparr>"
    by (auto dest!: init_Produce_Inr)
  then show ?thesis by (auto dest!: base_data_Inr)
next
  case (Produce_state a)
  with assms obtain b m1 where
    "ScopedContextBase_device_stream (ContextState_device (states m a)) (cs_stream (states m a))
       (m\<lparr>states := (states m)(a := states m a\<lparr>cs_stream := None\<rparr>)\<rparr>) = Inr (b, m1)"
    and "eventCache m1 \<noteq> []" and "event' ctx = Some (hd (eventCache m1))"
    and "m' = m1\<lparr>eventCache := tl (eventCache m1)\<rparr>"
    by (auto simp add: releaseStreamPtr_def dest!: init_Produce_Inr)
  then show ?thesis by (auto dest!: base_device_stream_Inr)
qed

lemma produce_ctor_exhausted:
  assumes "eventCache m = []"
  shows "\<exists>e. ScopedContextProduce_ctor args m = Inl e"
proof (cases "ScopedContextProduce_ctor args m")
  case (Inl e)
  then show ?thesis by blast
next
  case (Inr r)
  then obtain ctx m' where "ScopedContextProduce_ctor args m = Inr (ctx, m')" by (cases r) simp
  then have "eventCache m \<noteq> []" by (simp add: produce_ctor_event)
  with assms show ?thesis by simp
qed

lemma produce0_ctor:
  "ScopedContextProduce_ctor (Produce_state 4) machine0 = Inr (produce0, machine2)"
  by (simp add: init_Produce_def ScopedContextBase_device_stream_def setDevice_def
      EventCache_get_def releaseStreamPtr_def ContextState_device_def
      machine0_def machine2_def produce0_def)

lemma produce1_ctor:
  "ScopedContextProduce_ctor (Produce_streamID 3) machine0 = Inr (produce1, machine3)"
  by (simp add: init_Produce_def ScopedContextBase_streamID_def setDevice_def
      StreamCache_get_def EventCache_get_def machine0_def machine1_def machine3_def produce1_def)

lemma produce_test_event:
  "ScopedContextProduce_test dev strm ev m = Inr (ctx, m') \<Longrightarrow>
     event' ctx = ev \<and> eventCache m' = eventCache m"
  by (auto simp add: ScopedContextProduce_test_def split: sum.splits
      dest!: base_device_stream_Inr)

text \<open>
  Claim C5. Each public constructor of the Produce scope takes the scope's event from the
  pool while the scope is being constructed. With an exhausted pool the construction
  fails, so there is no scope to wrap a value or to queue work under. When the
  construction succeeds the pool was not empty, the scope's event is the handle the pool
  gave out, and the pool has lost exactly that handle; later uses of the scope (\<open>wrap\<close>,
  the getter) use that event and leave the pool alone. Only the private constructor for
  tests is given its event by the caller.
\<close>

theorem produce_event_at_construction:
  "(eventCache m = [] \<longrightarrow> (\<exists>e. ScopedContextProduce_ctor args m = Inl e))
   \<and> (ScopedContextProduce_ctor args m = Inr (ctx, m') \<longrightarrow>
        eventCache m \<noteq> [] \<and> event' ctx = Some (hd (eventCache m))
        \<and> eventCache m' = tl (eventCache m)
        \<and> product_event (wrap ctx val) = event' ctx
        \<and> eventCache (snd (get ctx r m')) = eventCache m')"
  using produce_ctor_event [of args m ctx m'] produce_ctor_exhausted [of m args]
  by (auto simp add: wrap_def new_Product_def get_def synchronizeStreams_def)

theorem produce_event_at_construction_witness:
  "eventCache machine_no_events = []
   \<and> ScopedContextProduce_ctor (Produce_streamID 3) machine_no_events = Inl EventPoolExhausted
   \<and> ScopedContextProduce_ctor (Produce_streamID 3) machine0 = Inr (produce1, machine3)
   \<and> event' produce1 = Some 20 \<and> eventCache machine0 = [20, 21] \<and> eventCache machine3 = [21]"
proof -
  have "ScopedContextProduce_ctor (Produce_streamID 3) machine_no_events = Inl EventPoolExhausted"
    by (simp add: init_Produce_def ScopedContextBase_streamID_def setDevice_def
        StreamCache_get_def EventCache_get_def machine0_def machine_no_events_def)
  moreover have "eventCache machine_no_events = []"
    by (simp add: machine_no_events_def)
  moreover have "eventCache machine0 = [20, 21]"
    by (simp add: machine0_def)
  ultimately show ?thesis
    using produce_event_at_construction [of machine_no_events "Produce_streamID 3"]
      produce_event_at_construction
        [of machine0 "Produce_streamID 3" produce1 machine3 "0::int" product0]
      produce1_ctor
    by simp
qed

text \<open>
  Claim C7. A Produce scope constructed from continuation state holds the device and the
  stream that the state held; afterwards the state holds no stream (its device is as
  before), and no other continuation state in the store has changed.
\<close>

theorem produce_from_state_takes_stream:
  assumes "ScopedContextProduce_ctor (Produce_state a) m = Inr (ctx, m')"
  shows "device ctx = ContextState_device (states m a)
       \<and> streamPtr ctx = ContextState_streamPtr (states m a)
       \<and> ContextState_streamPtr (states m' a) = None
       \<and> ContextState_device (states m' a) = ContextState_device (states m a)
       \<and> (\<forall>b. b \<noteq> a \<longrightarrow> states m' b = states m b)"
proof -
  from assms obtain b m1 where
    base: "ScopedContextBase_device_stream (ContextState_device (states m a)) (cs_stream (states m a))
       (m\<lparr>states := (states m)(a := states m a\<lparr>cs_stream := None\<rparr>)\<rparr>) = Inr (b, m1)"
    and ctx: "currentDevice' ctx = currentDevice' b" "stream' ctx = stream' b"
    and m': "m' = m1\<lparr>eventCache := tl (eventCache m1)\<rparr>"
    by (auto simp add: releaseStreamPtr_def dest!: init_Produce_Inr)
  from base_device_stream_Inr [OF base] ctx m' show ?thesis
    by (simp add: device_def streamPtr_def ContextState_device_def ContextState_streamPtr_def)
qed

theorem produce_from_state_takes_stream_witness:
  "ScopedContextProduce_ctor (Produce_state 4) machine0 = Inr (produce0, machine2)
   \<and> ContextState_streamPtr (states machine0 4) = Some 5
   \<and> device produce0 = 1 \<and> streamPtr produce0 = Some 5
   \<and> ContextState_streamPtr (states machine2 4) = None
   \<and> states machine2 3 = states machine0 3"
  using produce_from_state_takes_stream [OF produce0_ctor] produce0_ctor
  by (simp add: ContextState_streamPtr_def ContextState_device_def machine0_def)

lemma produce_ops_fields:
  "p \<in> set (fst (produce_ops ctx ops iEvent)) \<Longrightarrow>
     product_device p = device ctx \<and> product_stream p = streamPtr ctx
     \<and> product_event p = event' ctx"
proof (induction ops arbitrary: iEvent)
  case Nil
  then show ?case by simp
next
  case (Cons x ops)
  show ?case
  proof (cases x)
    case (Wrap v)
    with Cons.prems have "p = wrap ctx v \<or> p \<in> set (fst (produce_ops ctx ops iEvent))"
      by (auto split: prod.splits)
    then show ?thesis using Cons.IH by (auto simp add: wrap_def new_Product_def)
  next
    case (Emplace t v)
    with Cons.prems have "p = Event_get (emplace ctx iEvent t v) t
        \<or> p \<in> set (fst (produce_ops ctx ops (emplace ctx iEvent t v)))"
      by (auto split: prod.splits)
    then show ?thesis using Cons.IH
      by (auto simp add: emplace_def Event_emplace_def Event_get_def new_Product_def)
  qed
qed

lemma produce_ops_length:
  "length (fst (produce_ops ctx ops iEvent)) = length ops"
proof (induction ops arbitrary: iEvent)
  case Nil
  then show ?case by simp
next
  case (Cons x ops)
  then show ?case by (cases x) (simp_all add: case_prod_unfold)
qed

text \<open>
  Claim C9. Every result wrapper that a Produce scope creates, by \<open>wrap\<close> or by
  \<open>emplace\<close>, in any number and order of calls (one wrapper per call), carries the
  scope's device, the scope's stream handle and the scope's one event handle; for a scope
  built by a public constructor that event is the handle taken from the pool during
  construction.
\<close>

theorem produce_wrappers_share_handles:
  "length (fst (produce_ops ctx ops iEvent)) = length ops
   \<and> (\<forall>p \<in> set (fst (produce_ops ctx ops iEvent)).
        product_device p = device ctx \<and> product_stream p = streamPtr ctx
        \<and> product_event p = event' ctx)
   \<and> (ScopedContextProduce_ctor args m = Inr (ctx, m') \<longrightarrow>
        event' ctx = Some (hd (eventCache m)))"
  using produce_ctor_event [of args m ctx m'] produce_ops_fields [of _ ctx ops iEvent]
    produce_ops_length [of ctx ops iEvent]
  by blast

theorem produce_wrappers_share_handles_witness:
  "ScopedContextProduce_ctor (Produce_streamID 3) machine0 = Inr (produce1, machine3)
   \<and> map product_device (fst (produce_ops produce1 [Wrap 5, Emplace 0 6, Wrap 7] event0)) = [1, 1, 1]
   \<and> map product_stream (fst (produce_ops produce1 [Wrap 5, Emplace 0 6, Wrap 7] event0)) =
       [Some 10, Some 10, Some 10]
   \<and> map product_event (fst (produce_ops produce1 [Wrap 5, Emplace 0 6, Wrap 7] event0)) =
       [Some 20, Some 20, Some 20]
   \<and> event' produce1 = Some (hd (eventCache machine0))"
  using produce_wrappers_share_handles
      [of produce1 "[Wrap 5, Emplace 0 6, Wrap 7]" event0 "Produce_streamID 3" machine0 machine3]
    produce1_ctor
  by (simp add: wrap_def emplace_def Event_emplace_def Event_get_def new_Product_def
      produce1_def device_def streamPtr_def)

section \<open>The Task scope\<close>

lemma task0_ctor:
  "ScopedContextTask_ctor (Some 4) (WaitingTask 1) machine0 = Inr (task0, machine4)"
  by (simp add: ScopedContextTask_ctor_def ScopedContextBase_device_stream_def setDevice_def
      ContextState_device_def ContextState_streamPtr_def machine0_def machine4_def task0_def)

text \<open>
  Claim C8. A Task scope constructed from a pointer to continuation state has that
  state's device and stream, and the construction leaves the whole store of continuation
  states as it was: the state still holds its stream, and a further Task scope can be
  constructed from it, with the same device and stream.
\<close>

theorem task_from_state_reads_only:
  assumes "ScopedContextTask_ctor (Some a) h m = Inr (ctx, m')"
  shows "device ctx = ContextState_device (states m a)
       \<and> streamPtr ctx = ContextState_streamPtr (states m a)
       \<and> states m' = states m
       \<and> (\<exists>ctx2 m2. ScopedContextTask_ctor (Some a) h2 m' = Inr (ctx2, m2)
            \<and> device ctx2 = device ctx \<and> streamPtr ctx2 = streamPtr ctx)"
proof -
  from assms obtain b where
    base: "ScopedContextBase_device_stream (ContextState_device (states m a))
             (ContextState_streamPtr (states m a)) m = Inr (b, m')"
    and ctx: "currentDevice' ctx = currentDevice' b" "stream' ctx = stream' b"
    by (auto simp add: ScopedContextTask_ctor_def split: sum.splits)
  note b = base_device_stream_Inr [OF base]
  from b ctx have 1: "device ctx = ContextState_device (states m a)"
    and 2: "streamPtr ctx = ContextState_streamPtr (states m a)"
    and 3: "states m' = states m"
    by (simp_all add: device_def streamPtr_def)
  from b have "setDevice (ContextState_device (states m a)) m' =
      Inr (m'\<lparr>driverDevice := ContextState_device (states m a),
               calls := calls m' @ [SetDevice (ContextState_device (states m a))]\<rparr>)"
    by (simp add: setDevice_def)
  with 1 2 3 have "\<exists>ctx2 m2. ScopedContextTask_ctor (Some a) h2 m' = Inr (ctx2, m2)
            \<and> device ctx2 = device ctx \<and> streamPtr ctx2 = streamPtr ctx"
    by (simp add: ScopedContextTask_ctor_def ScopedContextBase_device_stream_def
        device_def streamPtr_def)
  with 1 2 3 show ?thesis by blast
qed

theorem task_from_state_reads_only_witness:
  "ScopedContextTask_ctor (Some 4) (WaitingTask 1) machine0 = Inr (task0, machine4)
   \<and> device task0 = 1 \<and> streamPtr task0 = Some 5
   \<and> states machine4 = states machine0
   \<and> ContextState_streamPtr (states machine4 4) = Some 5"
  using task_from_state_reads_only [OF task0_ctor] task0_ctor
  by (simp add: ContextState_streamPtr_def ContextState_device_def machine0_def)

end
